theory Spec2Isabelle
  imports Complex_Main "HOL-Library.Word"
begin

unbundle bit_operations_syntax

section \<open>The file integrity checker of file\_integrity\_checker.py\<close>

text \<open>
  The program keeps one JSON document (the baseline) in a file and compares the files
  under a directory with it. The model has three parts: the Python values that
  \<^verbatim>\<open>json.load\<close> can return, the operating system as the program observes it, and
  the methods of \<^verbatim>\<open>FileIntegrityChecker\<close>, each with its exceptions as values.
\<close>

subsection \<open>JSON values as Python holds them\<close>

text \<open>
  A JSON object is a Python dict: an association list in insertion order. The value is
  the one \<^verbatim>\<open>json.load\<close> built, so the keys of an object are distinct.
\<close>

datatype json =
    JNull
  | JBool bool
  | JInt int
  | JFloat rat
  | JStr string
  | JArr "json list"
  | JObj "(string \<times> json) list"

text \<open>Python's truth value of a loaded JSON value (\<^verbatim>\<open>if not x\<close>).\<close>

fun truthy :: "json \<Rightarrow> bool" where
  "truthy JNull = False"
| "truthy (JBool b) = b"
| "truthy (JInt i) = (i \<noteq> 0)"
| "truthy (JFloat r) = (r \<noteq> 0)"
| "truthy (JStr s) = (s \<noteq> [])"
| "truthy (JArr xs) = (xs \<noteq> [])"
| "truthy (JObj kvs) = (kvs \<noteq> [])"

text \<open>\<^verbatim>\<open>d[k] = v\<close> on a dict: an existing key keeps its place, a new key goes last.\<close>

fun dict_set :: "(string \<times> json) list \<Rightarrow> string \<Rightarrow> json \<Rightarrow> (string \<times> json) list" where
  "dict_set [] k v = [(k, v)]"
| "dict_set ((k', v') # kvs) k v =
     (if k' = k then (k, v) # kvs else (k', v') # dict_set kvs k v)"

datatype exn = AttributeError | KeyError | TypeError | UnicodeDecodeError

subsection \<open>The operating system as the program observes it\<close>

text \<open>
  What a path names. \<open>Regular bs\<close> is a readable regular file with content \<open>bs\<close>;
  \<open>Unreadable\<close> is a file whose \<^verbatim>\<open>open(..., "rb")\<close> or read raises IOError;
  \<open>Directory\<close> is a directory (opening it raises IsADirectoryError, an IOError);
  \<open>Dangling\<close> is a symbolic link whose target is absent: \<^verbatim>\<open>os.walk\<close> lists it
  among the files of its directory, \<^verbatim>\<open>os.path.exists\<close> follows the link and
  answers False, and opening it raises FileNotFoundError, an IOError.
\<close>

datatype node = Regular string | Unreadable | Directory | Dangling

text \<open>
  The environment is everything the program reads and never writes: the directory
  tree, the digest function of \<^verbatim>\<open>hashlib\<close> and the rendering of the clock.
  \<open>walk env d\<close> is the list of \<^verbatim>\<open>os.path.relpath(os.path.join(root, file), d)\<close>
  over \<^verbatim>\<open>os.walk(d)\<close>, in its order; \<open>node_at env p\<close> is what the path
  \<open>p\<close> names, if anything; \<open>fd_isdir env n\<close> says whether the open file descriptor
  \<open>n\<close> is a directory (\<^verbatim>\<open>os.stat\<close> takes an integer as a descriptor). The baseline
  file lies outside the tree, so that saving it does not change what the walk sees.
\<close>

record env =
  node_at :: "string \<Rightarrow> node option"
  fd_isdir :: "int \<Rightarrow> bool"
  walk :: "string \<Rightarrow> string list"
  sha256 :: "string \<Rightarrow> 256 word"
  iso :: "nat \<Rightarrow> string"

text \<open>The baseline file: absent, present but not openable, not UTF-8, not JSON, or JSON.\<close>

datatype bfile = Absent | Unopenable | Undecodable | Malformed | Content json

datatype msg =
    ErrorReading string
  | ErrorLoading
  | Saved
  | ErrorSaving
  | NotValidDirectory string
  | BaselineCreated string nat
  | NoBaselineData
  | BaselineDirInvalid json
  | AllMatch
  | ChangedHeader
  | NewHeader
  | MissingHeader
  | Item string

text \<open>
  The state: the checker's \<^verbatim>\<open>baseline_data\<close>, the baseline file and whether it can
  be opened for writing, the clock, and the console.
\<close>

record state =
  baseline_data :: json
  store :: bfile
  writable :: bool
  ticks :: nat
  out :: "msg list"

text \<open>\<^verbatim>\<open>datetime.now().isoformat()\<close>: reads the clock, which then moves on.\<close>

definition now :: "env \<Rightarrow> state \<Rightarrow> string \<times> state" where
  "now env s = (iso env (ticks s), s\<lparr>ticks := Suc (ticks s)\<rparr>)"

definition say :: "msg list \<Rightarrow> state \<Rightarrow> state" where
  "say ms s = s\<lparr>out := out s @ ms\<rparr>"

subsection \<open>calculate\_hash\<close>

definition hexchar :: "nat \<Rightarrow> char" where
  "hexchar n = ''0123456789abcdef'' ! (n mod 16)"

text \<open>\<^verbatim>\<open>hexdigest()\<close>: the 64 hexadecimal digits of the 256-bit digest, high nibble first.\<close>

definition hex64 :: "256 word \<Rightarrow> string" where
  "hex64 w = map (\<lambda>i. hexchar (unat (drop_bit (4 * (63 - i)) w AND 15))) [0..<64]"

text \<open>
  \<^verbatim>\<open>iter(lambda: f.read(4096), b"")\<close>: blocks of at most \<open>n\<close> bytes until the read
  returns the empty block.
\<close>

function read_blocks :: "nat \<Rightarrow> string \<Rightarrow> string list" where
  "read_blocks n bs =
     (if n = 0 \<or> bs = [] then [] else take n bs # read_blocks n (drop n bs))"
  by pat_completeness auto
termination
  by (relation "measure (\<lambda>(n, bs). length bs)") auto

declare read_blocks.simps [simp del]

text \<open>
  The hash object accumulates what \<^verbatim>\<open>update\<close> feeds it; its digest is the SHA-256 of
  the accumulated bytes.
\<close>

definition sha_update :: "string \<Rightarrow> string \<Rightarrow> string" where
  "sha_update acc block = acc @ block"

definition hexdigest :: "env \<Rightarrow> string \<Rightarrow> string" where
  "hexdigest env acc = hex64 (sha256 env acc)"

text \<open>
  The digest of the file, or the message and None when opening or reading raises
  IOError. A path that names nothing fails to open like a dangling link.
\<close>

definition calculate_hash :: "env \<Rightarrow> string \<Rightarrow> string option \<times> msg list" where
  "calculate_hash env file_path =
     (case node_at env file_path of
        Some (Regular bs) \<Rightarrow>
          (Some (hexdigest env (foldl sha_update [] (read_blocks 4096 bs))), [])
      | _ \<Rightarrow> (None, [ErrorReading file_path]))"

subsection \<open>load\_baseline, save\_baseline and the constructor\<close>

definition load_baseline :: "state \<Rightarrow> exn + (json \<times> msg list)" where
  "load_baseline s =
     (case store s of
        Absent \<Rightarrow> Inr (JObj [], [])
      | Unopenable \<Rightarrow> Inr (JObj [], [ErrorLoading])
      | Malformed \<Rightarrow> Inr (JObj [], [ErrorLoading])
      | Undecodable \<Rightarrow> Inl UnicodeDecodeError
      | Content j \<Rightarrow> Inr (j, []))"

definition init :: "state \<Rightarrow> exn + state" where
  "init s =
     (case load_baseline s of
        Inl e \<Rightarrow> Inl e
      | Inr (j, ms) \<Rightarrow> Inr (say ms (s\<lparr>baseline_data := j\<rparr>)))"

definition save_baseline :: "state \<Rightarrow> state" where
  "save_baseline s =
     (if writable s then say [Saved] (s\<lparr>store := Content (baseline_data s)\<rparr>)
      else say [ErrorSaving] s)"

subsection \<open>Paths\<close>

text \<open>\<^verbatim>\<open>posixpath.join\<close> of two components.\<close>

definition path_join :: "string \<Rightarrow> string \<Rightarrow> string" where
  "path_join a b =
     (if b \<noteq> [] \<and> hd b = CHR ''/'' then b
      else if a = [] \<or> last a = CHR ''/'' then a @ b
      else a @ ''/'' @ b)"

text \<open>\<^verbatim>\<open>os.path.exists\<close>: follows links, so a dangling link does not exist.\<close>

definition path_exists :: "env \<Rightarrow> string \<Rightarrow> bool" where
  "path_exists env p =
     (case node_at env p of None \<Rightarrow> False | Some Dangling \<Rightarrow> False | Some _ \<Rightarrow> True)"

text \<open>\<^verbatim>\<open>os.path.isdir\<close> on a path string; the empty path names nothing.\<close>

definition path_isdir :: "env \<Rightarrow> string \<Rightarrow> bool" where
  "path_isdir env p = (p \<noteq> [] \<and> node_at env p = Some Directory)"

subsection \<open>create\_baseline\<close>

text \<open>
  The loop over the walk. \<open>files\<close> is \<^verbatim>\<open>self.baseline_data["files"]\<close>; a file whose
  digest is None (or empty) is left out.
\<close>

fun hash_files ::
  "env \<Rightarrow> string \<Rightarrow> string list \<Rightarrow> (string \<times> json) list \<Rightarrow> state
     \<Rightarrow> (string \<times> json) list \<times> state" where
  "hash_files env directory [] files s = (files, s)"
| "hash_files env directory (relative_path # rest) files s =
     (case calculate_hash env (path_join directory relative_path) of
        (Some file_hash, ms) \<Rightarrow>
          (if file_hash \<noteq> [] then
             (case now env (say ms s) of (t, s') \<Rightarrow>
                hash_files env directory rest
                  (dict_set files relative_path
                     (JObj [(''hash'', JStr file_hash), (''last_checked'', JStr t)])) s')
           else hash_files env directory rest files (say ms s))
      | (None, ms) \<Rightarrow> hash_files env directory rest files (say ms s))"

definition create_baseline :: "env \<Rightarrow> string \<Rightarrow> state \<Rightarrow> state" where
  "create_baseline env directory s =
     (if \<not> path_isdir env directory then say [NotValidDirectory directory] s
      else
        (case now env s of (t, s1) \<Rightarrow>
           (case hash_files env directory (walk env directory) [] s1 of (files, s2) \<Rightarrow>
              say [BaselineCreated directory (length files)]
                (save_baseline
                   (s2\<lparr>baseline_data :=
                      JObj [(''directory'', JStr directory), (''timestamp'', JStr t),
                            (''files'', JObj files)]\<rparr>)))))"

subsection \<open>verify\_integrity\<close>

text \<open>\<^verbatim>\<open>x.get(k)\<close>: only a dict has the method.\<close>

fun py_get :: "json \<Rightarrow> string \<Rightarrow> exn + json" where
  "py_get (JObj kvs) k = Inr (case map_of kvs k of None \<Rightarrow> JNull | Some v \<Rightarrow> v)"
| "py_get _ k = Inl AttributeError"

text \<open>\<^verbatim>\<open>x[k]\<close> with a string key: KeyError on a dict without the key, TypeError on any
  other JSON value.\<close>

fun subscript :: "json \<Rightarrow> string \<Rightarrow> exn + json" where
  "subscript (JObj kvs) k = (case map_of kvs k of None \<Rightarrow> Inl KeyError | Some v \<Rightarrow> Inr v)"
| "subscript _ k = Inl TypeError"

text \<open>\<^verbatim>\<open>x.items()\<close>.\<close>

fun py_items :: "json \<Rightarrow> exn + (string \<times> json) list" where
  "py_items (JObj kvs) = Inr kvs"
| "py_items _ = Inl AttributeError"

text \<open>
  \<^verbatim>\<open>os.path.isdir(x)\<close> on a loaded value: a string is a path, an integer (or a bool)
  a file descriptor, anything else makes \<^verbatim>\<open>os.stat\<close> raise TypeError.
\<close>

fun os_path_isdir :: "env \<Rightarrow> json \<Rightarrow> exn + bool" where
  "os_path_isdir env (JStr p) = Inr (path_isdir env p)"
| "os_path_isdir env (JInt n) = Inr (fd_isdir env n)"
| "os_path_isdir env (JBool b) = Inr (fd_isdir env (if b then 1 else 0))"
| "os_path_isdir env _ = Inl TypeError"

text \<open>\<^verbatim>\<open>os.path.join(x, rel)\<close> and \<^verbatim>\<open>os.walk(x)\<close> need a path string.\<close>

fun as_path :: "json \<Rightarrow> exn + string" where
  "as_path (JStr p) = Inr p"
| "as_path _ = Inl TypeError"

text \<open>\<^verbatim>\<open>current_hash == stored\<close>, the digest or None against a loaded value.\<close>

fun hash_eq :: "string option \<Rightarrow> json \<Rightarrow> bool" where
  "hash_eq None JNull = True"
| "hash_eq (Some h) (JStr h') = (h = h')"
| "hash_eq _ _ = False"

text \<open>
  The first loop, over \<^verbatim>\<open>baseline_files.items()\<close>: the lists of changed and missing
  paths and the messages of \<open>calculate_hash\<close>, or the exception that ends it.
\<close>

fun check_entries ::
  "env \<Rightarrow> json \<Rightarrow> (string \<times> json) list \<Rightarrow> string list \<Rightarrow> string list \<Rightarrow> msg list
     \<Rightarrow> exn + (string list \<times> string list \<times> msg list)" where
  "check_entries env directory [] changed missing ms = Inr (changed, missing, ms)"
| "check_entries env directory ((relative_path, file_data) # rest) changed missing ms =
     (case as_path directory of
        Inl e \<Rightarrow> Inl e
      | Inr d \<Rightarrow>
          (let file_path = path_join d relative_path in
           if \<not> path_exists env file_path then
             check_entries env directory rest changed (missing @ [relative_path]) ms
           else
             (case calculate_hash env file_path of (current_hash, ms') \<Rightarrow>
                (case subscript file_data ''hash'' of
                   Inl e \<Rightarrow> Inl e
                 | Inr stored \<Rightarrow>
                     if \<not> hash_eq current_hash stored then
                       check_entries env directory rest (changed @ [relative_path]) missing
                         (ms @ ms')
                     else check_entries env directory rest changed missing (ms @ ms')))))"

record result =
  changed_files :: "string list"
  new_files :: "string list"
  missing_files :: "string list"

text \<open>The report printed after the two loops.\<close>

definition report :: "string list \<Rightarrow> string list \<Rightarrow> string list \<Rightarrow> msg list" where
  "report changed new missing =
     (if changed = [] \<and> new = [] \<and> missing = [] then [AllMatch]
      else (if changed \<noteq> [] then ChangedHeader # map Item changed else [])
         @ (if new \<noteq> [] then NewHeader # map Item new else [])
         @ (if missing \<noteq> [] then MissingHeader # map Item missing else []))"

text \<open>
  \<open>verify_integrity\<close>: \<open>Inl\<close> is an exception that leaves the method, \<open>Inr (None, s)\<close>
  the bare \<^verbatim>\<open>return\<close> of the two guards, \<open>Inr (Some r, s)\<close> the returned dictionary.
\<close>

definition verify_integrity :: "env \<Rightarrow> state \<Rightarrow> exn + (result option \<times> state)" where
  "verify_integrity env s =
     (if \<not> truthy (baseline_data s) then Inr (None, say [NoBaselineData] s)
      else
        (case py_get (baseline_data s) ''directory'' of
           Inl e \<Rightarrow> Inl e
         | Inr directory \<Rightarrow>
             (case (if \<not> truthy directory then Inr False else os_path_isdir env directory) of
                Inl e \<Rightarrow> Inl e
              | Inr False \<Rightarrow> Inr (None, say [BaselineDirInvalid directory] s)
              | Inr True \<Rightarrow>
                  (case subscript (baseline_data s) ''files'' of
                     Inl e \<Rightarrow> Inl e
                   | Inr baseline_files \<Rightarrow>
                       (case py_items baseline_files of
                          Inl e \<Rightarrow> Inl e
                        | Inr items \<Rightarrow>
                            (case check_entries env directory items [] [] [] of
                               Inl e \<Rightarrow> Inl e
                             | Inr (changed, missing, ms) \<Rightarrow>
                                 (case as_path directory of
                                    Inl e \<Rightarrow> Inl e
                                  | Inr d \<Rightarrow>
                                      (let new = filter (\<lambda>rel. rel \<notin> fst ` set items) (walk env d);
                                           s1 = say (ms @ report changed new missing) s
                                       in case now env s1 of (t, s2) \<Rightarrow>
                                            (case baseline_data s2 of
                                               JObj kvs \<Rightarrow>
                                                 Inr (Some \<lparr>changed_files = changed,
                                                             new_files = new,
                                                             missing_files = missing\<rparr>,
                                                      save_baseline
                                                        (s2\<lparr>baseline_data :=
                                                           JObj (dict_set kvs ''last_checked''
                                                                  (JStr t))\<rparr>))
                                             | _ \<Rightarrow> Inl TypeError)))))))))"

text \<open>The command line: the constructor loads the baseline file, then one method runs.\<close>

definition main_create :: "env \<Rightarrow> string \<Rightarrow> state \<Rightarrow> exn + state" where
  "main_create env path s =
     (case init s of Inl e \<Rightarrow> Inl e | Inr s' \<Rightarrow> Inr (create_baseline env path s'))"

definition main_verify :: "env \<Rightarrow> state \<Rightarrow> exn + (result option \<times> state)" where
  "main_verify env s =
     (case init s of Inl e \<Rightarrow> Inl e | Inr s' \<Rightarrow> verify_integrity env s')"

subsection \<open>What the loops of verify\_integrity decide\<close>

text \<open>
  The two conditions under which the first loop appends a baseline entry to a list:
  the path does not exist (missing), or it exists and the digest computed now differs
  from the stored one (changed).
\<close>

definition entry_missing :: "env \<Rightarrow> string \<Rightarrow> string \<times> json \<Rightarrow> bool" where
  "entry_missing env d e = (\<not> path_exists env (path_join d (fst e)))"

definition entry_changed :: "env \<Rightarrow> string \<Rightarrow> string \<times> json \<Rightarrow> bool" where
  "entry_changed env d e =
     (path_exists env (path_join d (fst e)) \<and>
      (case subscript (snd e) ''hash'' of
         Inl x \<Rightarrow> False
       | Inr stored \<Rightarrow> \<not> hash_eq (fst (calculate_hash env (path_join d (fst e)))) stored))"

text \<open>
  An entry as \<open>create_baseline\<close> writes it: the path names a readable file and the
  stored digest is the digest of its content.
\<close>

definition recorded :: "env \<Rightarrow> string \<Rightarrow> string \<times> json \<Rightarrow> bool" where
  "recorded env d e =
     (\<exists>bs t. node_at env (path_join d (fst e)) = Some (Regular bs) \<and>
             snd e = JObj [(''hash'', JStr (hex64 (sha256 env bs))), (''last_checked'', JStr t)])"

subsection \<open>Concrete environments and states\<close>

text \<open>
  A small environment for running the model: the named nodes, one walk result for
  every directory, no directory among the file descriptors. Its digest function is a
  stand-in (the length of the content); no theorem below depends on which function the
  digest is.
\<close>

definition toy_env :: "(string \<times> node) list \<Rightarrow> string list \<Rightarrow> env" where
  "toy_env nodes listed =
     \<lparr>node_at = map_of nodes, fd_isdir = (\<lambda>n. False), walk = (\<lambda>d. listed),
      sha256 = (\<lambda>bs. of_nat (length bs)), iso = (\<lambda>n. replicate (Suc n) (CHR ''I''))\<rparr>"

text \<open>A process that has just started, before the constructor has run.\<close>

definition fresh :: "bfile \<Rightarrow> state" where
  "fresh b = \<lparr>baseline_data = JObj [], store = b, writable = True, ticks = 0, out = []\<rparr>"

subsection \<open>Reading the result of a run\<close>

text \<open>
  The root and the entries of a snapshot, and the partition the three lists induce:
  the unchanged paths are the baseline keys in neither \<open>changed_files\<close> nor
  \<open>missing_files\<close>; \<open>one_of\<close> says that exactly one of the listed conditions holds.
\<close>

definition baseline_dir :: "json \<Rightarrow> string" where
  "baseline_dir j = (case py_get j ''directory'' of Inr (JStr d) \<Rightarrow> d | _ \<Rightarrow> [])"

definition baseline_items :: "json \<Rightarrow> (string \<times> json) list" where
  "baseline_items j = (case subscript j ''files'' of Inr (JObj items) \<Rightarrow> items | _ \<Rightarrow> [])"

definition unchanged_files :: "string list \<Rightarrow> result \<Rightarrow> string list" where
  "unchanged_files keys r =
     filter (\<lambda>k. k \<notin> set (changed_files r) \<and> k \<notin> set (missing_files r)) keys"

definition one_of :: "bool list \<Rightarrow> bool" where
  "one_of bs = (length (filter id bs) = 1)"

definition baseline_partition :: "string list \<Rightarrow> result \<Rightarrow> bool" where
  "baseline_partition keys r =
     (\<forall>k \<in> set keys. one_of [k \<in> set (unchanged_files keys r), k \<in> set (changed_files r),
                             k \<in> set (missing_files r)])"

definition disk_partition :: "string list \<Rightarrow> string list \<Rightarrow> result \<Rightarrow> bool" where
  "disk_partition disk keys r =
     (\<forall>p \<in> set disk. one_of [p \<in> set (unchanged_files keys r), p \<in> set (changed_files r),
                             p \<in> set (new_files r)])"

definition lists_disjoint :: "result \<Rightarrow> bool" where
  "lists_disjoint r =
     (set (changed_files r) \<inter> set (new_files r) = {} \<and>
      set (changed_files r) \<inter> set (missing_files r) = {} \<and>
      set (new_files r) \<inter> set (missing_files r) = {})"

text \<open>What a call returned, without the state.\<close>

definition returned :: "exn + ('a \<times> state) \<Rightarrow> exn + 'a" where
  "returned x = (case x of Inl e \<Rightarrow> Inl e | Inr (r, s) \<Rightarrow> Inr r)"

text \<open>The state a call left, when it returned.\<close>

definition after :: "exn + ('a \<times> state) \<Rightarrow> state option" where
  "after x = (case x of Inl e \<Rightarrow> None | Inr (r, s) \<Rightarrow> Some s)"

subsection \<open>Example trees\<close>

text \<open>
  A tree with two files under \<open>d\<close>, and three later states of it: \<open>a.txt\<close> replaced
  by a dangling symbolic link; \<open>a.txt\<close> made unreadable, \<open>sub/b.txt\<close> deleted and
  \<open>c.txt\<close> added; \<open>a.txt\<close> replaced by a directory.
\<close>

definition tree_before :: env where
  "tree_before = toy_env
     [(''d'', Directory), (''d/a.txt'', Regular ''hello''), (''d/sub'', Directory),
      (''d/sub/b.txt'', Regular ''world'')]
     [''a.txt'', ''sub/b.txt'']"

definition tree_dangling :: env where
  "tree_dangling = toy_env
     [(''d'', Directory), (''d/a.txt'', Dangling), (''d/sub'', Directory),
      (''d/sub/b.txt'', Regular ''world'')]
     [''a.txt'', ''sub/b.txt'']"

definition tree_after :: env where
  "tree_after = toy_env
     [(''d'', Directory), (''d/a.txt'', Unreadable), (''d/sub'', Directory),
      (''d/c.txt'', Regular ''new'')]
     [''a.txt'', ''c.txt'']"

definition tree_replaced :: env where
  "tree_replaced = toy_env
     [(''d'', Directory), (''d/a.txt'', Directory), (''d/a.txt/c'', Regular ''x''),
      (''d/sub'', Directory), (''d/sub/b.txt'', Regular ''world'')]
     [''a.txt/c'', ''sub/b.txt'']"

text \<open>A tree with a file that cannot be read.\<close>

definition tree_locked :: env where
  "tree_locked = toy_env
     [(''d'', Directory), (''d/a.txt'', Regular ''hello''), (''d/secret'', Unreadable)]
     [''a.txt'', ''secret'']"

subsection \<open>Shapes of a loaded baseline\<close>

text \<open>
  \<open>snapshot_shaped\<close>: the shape \<open>save_baseline\<close> writes, an object whose
  \<open>directory\<close> is a string and whose \<open>files\<close> is an object of entries that are
  objects with a \<open>hash\<close>. \<open>root_invalid\<close>: an object whose \<open>directory\<close> is absent or
  a string that does not name a directory. \<open>stale_snapshot\<close> is a snapshot of a
  directory \<open>gone\<close> that no longer exists.
\<close>

fun entry_shaped :: "json \<Rightarrow> bool" where
  "entry_shaped (JObj kvs) = (map_of kvs ''hash'' \<noteq> None)"
| "entry_shaped _ = False"

definition snapshot_shaped :: "json \<Rightarrow> bool" where
  "snapshot_shaped j =
     (case j of
        JObj kvs \<Rightarrow>
          (case map_of kvs ''directory'' of
             Some (JStr d) \<Rightarrow>
               (case map_of kvs ''files'' of
                  Some (JObj items) \<Rightarrow> list_all (\<lambda>e. entry_shaped (snd e)) items
                | _ \<Rightarrow> False)
           | _ \<Rightarrow> False)
      | _ \<Rightarrow> False)"

definition root_invalid :: "env \<Rightarrow> json \<Rightarrow> bool" where
  "root_invalid env j =
     (case j of
        JObj kvs \<Rightarrow>
          (case map_of kvs ''directory'' of
             None \<Rightarrow> True
           | Some (JStr d) \<Rightarrow> \<not> path_isdir env d
           | Some _ \<Rightarrow> False)
      | _ \<Rightarrow> False)"

definition stale_snapshot :: json where
  "stale_snapshot =
     JObj [(''directory'', JStr ''gone''), (''timestamp'', JStr ''I''),
           (''files'', JObj [(''a.txt'', JObj [(''hash'', JStr ''00''), (''last_checked'', JStr ''II'')])])]"

section \<open>Properties\<close>

subsection \<open>Shared facts\<close>

lemma as_path_Inr [simp]: "as_path x = Inr d \<longleftrightarrow> x = JStr d"
  by (cases x) auto

lemma py_items_Inr [simp]: "py_items x = Inr items \<longleftrightarrow> x = JObj items"
  by (cases x) auto

text \<open>The digest: chunked reading feeds the whole content; the rendering is 64 lowercase hexadecimal digits.\<close>

lemma read_blocks_concat: "0 < n \<Longrightarrow> concat (read_blocks n bs) = bs"
proof (induction n bs rule: read_blocks.induct)
  case (1 n bs)
  show ?case
  proof (cases "bs = []")
    case True
    then show ?thesis by (subst read_blocks.simps) simp
  next
    case False
    with 1 have IH: "concat (read_blocks n (drop n bs)) = drop n bs" by simp
    have "read_blocks n bs = take n bs # read_blocks n (drop n bs)"
      using False 1(2) by (subst read_blocks.simps) simp
    then show ?thesis using IH by simp
  qed
qed

lemma foldl_sha_update: "foldl sha_update acc blocks = acc @ concat blocks"
  by (induction blocks arbitrary: acc) (simp_all add: sha_update_def)

lemma calculate_hash_Regular:
  "node_at env p = Some (Regular bs) \<Longrightarrow> calculate_hash env p = (Some (hex64 (sha256 env bs)), [])"
  by (simp add: calculate_hash_def foldl_sha_update read_blocks_concat hexdigest_def)

lemma length_hex64: "length (hex64 w) = 64"
  by (simp only: hex64_def length_map length_upt diff_zero)

lemma hexchar_lower: "hexchar n \<in> set ''0123456789abcdef''"
proof -
  have "n mod 16 < length ''0123456789abcdef''" by simp
  then show ?thesis unfolding hexchar_def by (rule nth_mem)
qed

lemma hex64_lower: "set (hex64 w) \<subseteq> set ''0123456789abcdef''"
proof
  fix c assume "c \<in> set (hex64 w)"
  then obtain i where "c = hexchar (unat (drop_bit (4 * (63 - i)) w AND 15))"
    unfolding hex64_def set_map by blast
  then show "c \<in> set ''0123456789abcdef''" by (simp only: hexchar_lower)
qed

text \<open>Dictionaries.\<close>

lemma map_of_dict_set: "map_of (dict_set kvs k v) = (map_of kvs)(k \<mapsto> v)"
  by (induction kvs) (auto simp: fun_eq_iff)

lemma keys_dict_set:
  "map fst (dict_set kvs k v) = (if k \<in> fst ` set kvs then map fst kvs else map fst kvs @ [k])"
  by (induction kvs) (force simp: image_iff)+

lemma set_dict_set: "set (dict_set kvs k v) \<subseteq> insert (k, v) (set kvs)"
  by (induction kvs) (auto split: if_splits)

lemma fst_set_dict_set: "fst ` set (dict_set kvs k v) = insert k (fst ` set kvs)"
proof -
  have "set (map fst (dict_set kvs k v)) = insert k (set (map fst kvs))"
    unfolding keys_dict_set by auto
  then show ?thesis by simp
qed

lemma hash_in_dict_set: "(k, v) \<in> set (dict_set kvs k v)"
  by (induction kvs) auto

text \<open>The loop of \<open>create_baseline\<close> over a tree of readable files.\<close>

lemma hex64_nonempty: "hex64 w \<noteq> []"
  using length_hex64 [of w] by auto

lemma hash_files_regular:
  assumes "\<forall>p \<in> set rels. \<exists>bs. node_at env (path_join d p) = Some (Regular bs)"
    and "\<forall>e \<in> set files. recorded env d e"
  shows "(\<forall>e \<in> set (fst (hash_files env d rels files s)). recorded env d e)
       \<and> fst ` set (fst (hash_files env d rels files s)) = fst ` set files \<union> set rels
       \<and> (distinct rels \<and> set rels \<inter> fst ` set files = {} \<longrightarrow>
            map fst (fst (hash_files env d rels files s)) = map fst files @ rels)
       \<and> baseline_data (snd (hash_files env d rels files s)) = baseline_data s
       \<and> store (snd (hash_files env d rels files s)) = store s
       \<and> writable (snd (hash_files env d rels files s)) = writable s
       \<and> out (snd (hash_files env d rels files s)) = out s"
  using assms
proof (induction rels arbitrary: files s)
  case Nil
  then show ?case by simp
next
  case (Cons p rels)
  from Cons.prems(1) obtain bs where bs: "node_at env (path_join d p) = Some (Regular bs)"
    by auto
  let ?v = "JObj [(''hash'', JStr (hex64 (sha256 env bs))), (''last_checked'', JStr (iso env (ticks s)))]"
  let ?files = "dict_set files p ?v"
  let ?s = "s\<lparr>ticks := Suc (ticks s)\<rparr>"
  have step: "hash_files env d (p # rels) files s = hash_files env d rels ?files ?s"
    using bs by (simp add: calculate_hash_Regular hex64_nonempty now_def say_def)
  have rec: "\<forall>e \<in> set ?files. recorded env d e"
  proof
    fix e assume "e \<in> set ?files"
    with set_dict_set [of files p ?v] have "e = (p, ?v) \<or> e \<in> set files" by auto
    then show "recorded env d e"
      using Cons.prems(2) bs by (auto simp: recorded_def)
  qed
  from Cons.prems(1) have rest: "\<forall>p \<in> set rels. \<exists>bs. node_at env (path_join d p) = Some (Regular bs)"
    by simp
  note IH = Cons.IH [OF rest rec, of ?s]
  have keys: "fst ` set ?files = insert p (fst ` set files)"
    by (rule fst_set_dict_set)
  have order: "distinct (p # rels) \<and> set (p # rels) \<inter> fst ` set files = {} \<longrightarrow>
      distinct rels \<and> set rels \<inter> fst ` set ?files = {} \<and> map fst ?files = map fst files @ [p]"
    unfolding keys keys_dict_set by auto
  from IH have 1: "\<forall>e \<in> set (fst (hash_files env d rels ?files ?s)). recorded env d e"
    and 2: "fst ` set (fst (hash_files env d rels ?files ?s)) = fst ` set ?files \<union> set rels"
    and 3: "distinct rels \<and> set rels \<inter> fst ` set ?files = {} \<longrightarrow>
            map fst (fst (hash_files env d rels ?files ?s)) = map fst ?files @ rels"
    and 4: "baseline_data (snd (hash_files env d rels ?files ?s)) = baseline_data s"
       "store (snd (hash_files env d rels ?files ?s)) = store s"
       "writable (snd (hash_files env d rels ?files ?s)) = writable s"
       "out (snd (hash_files env d rels ?files ?s)) = out s"
    by simp_all
  from 2 keys have k2: "fst ` set (fst (hash_files env d rels ?files ?s)) = fst ` set files \<union> set (p # rels)"
    by auto
  from 3 order have k3: "distinct (p # rels) \<and> set (p # rels) \<inter> fst ` set files = {} \<longrightarrow>
            map fst (fst (hash_files env d rels ?files ?s)) = map fst files @ p # rels"
    by simp
  show ?case
    unfolding step using 1 k2 k3 4 by blast
qed

text \<open>The first loop of \<open>verify_integrity\<close>.\<close>

lemma check_entries_Inr:
  "check_entries env (JStr d) items ch mi ms = Inr (ch', mi', ms') \<Longrightarrow>
     ch' = ch @ map fst (filter (entry_changed env d) items) \<and>
     mi' = mi @ map fst (filter (entry_missing env d) items)"
proof (induction items arbitrary: ch mi ms)
  case Nil
  then show ?case by simp
next
  case (Cons e items)
  obtain k v where e: "e = (k, v)" by (cases e)
  show ?case
  proof (cases "path_exists env (path_join d k)")
    case False
    with Cons.prems e have "check_entries env (JStr d) items ch (mi @ [k]) ms = Inr (ch', mi', ms')"
      by simp
    from Cons.IH [OF this] False e show ?thesis
      by (simp add: entry_changed_def entry_missing_def)
  next
    case True
    obtain cur m where c: "calculate_hash env (path_join d k) = (cur, m)" by (cases "calculate_hash env (path_join d k)")
    from Cons.prems e True c obtain stored where st: "subscript v ''hash'' = Inr stored"
      by (auto split: sum.splits)
    show ?thesis
    proof (cases "hash_eq cur stored")
      case True
      with Cons.prems e \<open>path_exists env (path_join d k)\<close> c st
      have "check_entries env (JStr d) items ch mi (ms @ m) = Inr (ch', mi', ms')" by simp
      from Cons.IH [OF this] True e c st \<open>path_exists env (path_join d k)\<close> show ?thesis
        by (simp add: entry_changed_def entry_missing_def)
    next
      case False
      with Cons.prems e \<open>path_exists env (path_join d k)\<close> c st
      have "check_entries env (JStr d) items (ch @ [k]) mi (ms @ m) = Inr (ch', mi', ms')" by simp
      from Cons.IH [OF this] False e c st \<open>path_exists env (path_join d k)\<close> show ?thesis
        by (simp add: entry_changed_def entry_missing_def)
    qed
  qed
qed

lemma check_entries_total:
  "\<forall>e \<in> set items. path_exists env (path_join d (fst e)) \<longrightarrow> (\<exists>stored. subscript (snd e) ''hash'' = Inr stored) \<Longrightarrow>
   \<exists>r. check_entries env (JStr d) items ch mi ms = Inr r"
proof (induction items arbitrary: ch mi ms)
  case Nil
  then show ?case by simp
next
  case (Cons e items)
  obtain k v where e: "e = (k, v)" by (cases e)
  from Cons.prems have rest: "\<forall>e \<in> set items. path_exists env (path_join d (fst e)) \<longrightarrow> (\<exists>stored. subscript (snd e) ''hash'' = Inr stored)"
    by simp
  note IH = Cons.IH [OF rest]
  show ?case
  proof (cases "path_exists env (path_join d k)")
    case False
    with e IH [of ch "mi @ [k]" ms] show ?thesis by simp
  next
    case True
    with Cons.prems e obtain stored where st: "subscript v ''hash'' = Inr stored" by auto
    obtain cur m where c: "calculate_hash env (path_join d k) = (cur, m)" by (cases "calculate_hash env (path_join d k)")
    from True e st c IH [of "ch @ [k]" mi "ms @ m"] IH [of ch mi "ms @ m"] show ?thesis by simp
  qed
qed

text \<open>What a completed run of \<open>verify_integrity\<close> has gone through, and what it leaves.\<close>

lemma verify_integrity_SomeD:
  assumes "verify_integrity env s = Inr (Some r, s')"
  shows "\<exists>d kvs items changed missing ms.
      baseline_data s = JObj kvs \<and> kvs \<noteq> [] \<and>
      map_of kvs ''directory'' = Some (JStr d) \<and> path_isdir env d \<and>
      map_of kvs ''files'' = Some (JObj items) \<and>
      check_entries env (JStr d) items [] [] [] = Inr (changed, missing, ms) \<and>
      r = \<lparr>changed_files = changed,
           new_files = filter (\<lambda>rel. rel \<notin> fst ` set items) (walk env d),
           missing_files = missing\<rparr> \<and>
      s' = save_baseline
             (s\<lparr>out := out s @ ms @ report changed (new_files r) missing,
                ticks := Suc (ticks s),
                baseline_data := JObj (dict_set kvs ''last_checked'' (JStr (iso env (ticks s))))\<rparr>)"
  using assms unfolding verify_integrity_def
  by (cases "baseline_data s")
     (auto simp: say_def now_def Let_def
           split: if_splits sum.splits bool.splits prod.splits option.splits)

lemma verify_integrity_NoneD:
  assumes "verify_integrity env s = Inr (None, s')"
  shows "(\<not> truthy (baseline_data s) \<and> s' = say [NoBaselineData] s) \<or>
         (\<exists>d. truthy (baseline_data s) \<and> py_get (baseline_data s) ''directory'' = Inr d \<and>
              (\<not> truthy d \<or> os_path_isdir env d = Inr False) \<and>
              s' = say [BaselineDirInvalid d] s)"
  using assms unfolding verify_integrity_def
  by (auto simp: now_def Let_def
           split: if_splits sum.splits bool.splits prod.splits json.splits)

text \<open>The three lists a completed run returns.\<close>

lemma verify_integrity_lists:
  assumes "verify_integrity env s = Inr (Some r, s')"
  shows "changed_files r = map fst (filter (entry_changed env (baseline_dir (baseline_data s))) (baseline_items (baseline_data s)))
       \<and> missing_files r = map fst (filter (entry_missing env (baseline_dir (baseline_data s))) (baseline_items (baseline_data s)))
       \<and> new_files r = filter (\<lambda>rel. rel \<notin> fst ` set (baseline_items (baseline_data s))) (walk env (baseline_dir (baseline_data s)))"
proof -
  from verify_integrity_SomeD [OF assms] obtain d kvs items changed missing ms where
    *: "baseline_data s = JObj kvs"
       "map_of kvs ''directory'' = Some (JStr d)"
       "map_of kvs ''files'' = Some (JObj items)"
       "check_entries env (JStr d) items [] [] [] = Inr (changed, missing, ms)"
       "r = \<lparr>changed_files = changed,
             new_files = filter (\<lambda>rel. rel \<notin> fst ` set items) (walk env d),
             missing_files = missing\<rparr>"
    by blast
  from * have d: "baseline_dir (baseline_data s) = d" and i: "baseline_items (baseline_data s) = items"
    by (simp_all add: baseline_dir_def baseline_items_def)
  from check_entries_Inr [OF *(4)] *(5) show ?thesis unfolding d i by simp
qed

lemma one_of3: "one_of [a, b, c] \<longleftrightarrow> (a \<and> \<not> b \<and> \<not> c) \<or> (\<not> a \<and> b \<and> \<not> c) \<or> (\<not> a \<and> \<not> b \<and> c)"
  by (auto simp: one_of_def)

text \<open>Running the model on concrete input.\<close>

lemma hexdigest_blocks:
  "hexdigest env (foldl sha_update [] (read_blocks 4096 bs)) = hex64 (sha256 env bs)"
  by (simp add: foldl_sha_update read_blocks_concat hexdigest_def)

lemmas run_defs = toy_env_def fresh_def verify_integrity_def create_baseline_def path_isdir_def
  path_exists_def path_join_def now_def say_def save_baseline_def report_def Let_def
  init_def load_baseline_def main_verify_def main_create_def calculate_hash_def
  hexdigest_blocks hex64_nonempty returned_def
  tree_before_def tree_dangling_def tree_after_def tree_replaced_def

lemma baseline_of_tree_before: "baseline_data (create_baseline tree_before ''d'' (fresh Absent)) =
   JObj [(''directory'', JStr ''d''), (''timestamp'', JStr ''I''),
         (''files'', JObj [(''a.txt'', JObj [(''hash'', JStr (hex64 5)), (''last_checked'', JStr ''II'')]),
                          (''sub/b.txt'', JObj [(''hash'', JStr (hex64 5)), (''last_checked'', JStr ''III'')])])]"
  by (simp add: run_defs)

text \<open>The snapshot \<open>create_baseline\<close> builds, and running \<open>verify_integrity\<close> on a well-formed one.\<close>

lemma distinct_dict_set:
  "distinct (map fst kvs) \<Longrightarrow> distinct (map fst (dict_set kvs k v))"
  by (simp add: keys_dict_set)

lemma hash_files_distinct:
  "distinct (map fst files) \<Longrightarrow> distinct (map fst (fst (hash_files env d rels files s)))"
proof (induction rels arbitrary: files s)
  case Nil
  then show ?case by simp
next
  case (Cons p rels)
  obtain h ms where c: "calculate_hash env (path_join d p) = (h, ms)"
    by (cases "calculate_hash env (path_join d p)")
  show ?case
  proof (cases "\<exists>x. h = Some x \<and> x \<noteq> []")
    case True
    then obtain x where x: "h = Some x" "x \<noteq> []" by blast
    obtain t s1 where n: "now env (say ms s) = (t, s1)" by (cases "now env (say ms s)")
    have "hash_files env d (p # rels) files s =
        hash_files env d rels
          (dict_set files p (JObj [(''hash'', JStr x), (''last_checked'', JStr t)])) s1"
      using c x n by simp
    with Cons.IH [OF distinct_dict_set [OF Cons.prems]] show ?thesis by simp
  next
    case False
    then have "hash_files env d (p # rels) files s = hash_files env d rels files (say ms s)"
      using c by (cases h) auto
    with Cons.IH [OF Cons.prems] show ?thesis by simp
  qed
qed

lemma create_baseline_data:
  assumes "path_isdir env d"
  shows "baseline_data (create_baseline env d s) =
     JObj [(''directory'', JStr d), (''timestamp'', JStr (iso env (ticks s))),
           (''files'', JObj (fst (hash_files env d (walk env d) [] (s\<lparr>ticks := Suc (ticks s)\<rparr>))))]"
  using assms
  by (simp add: create_baseline_def now_def say_def save_baseline_def split: prod.splits)

lemma verify_integrity_runI:
  assumes "baseline_data s = JObj kvs"
    and "map_of kvs ''directory'' = Some (JStr d)"
    and "path_isdir env d"
    and "map_of kvs ''files'' = Some (JObj items)"
    and "check_entries env (JStr d) items [] [] [] = Inr (changed, missing, ms)"
  shows "returned (verify_integrity env s) =
     Inr (Some \<lparr>changed_files = changed,
                new_files = filter (\<lambda>rel. rel \<notin> fst ` set items) (walk env d),
                missing_files = missing\<rparr>)"
proof -
  from assms(2) have ne: "kvs \<noteq> []" by auto
  from assms(3) have d: "d \<noteq> []" by (simp add: path_isdir_def)
  show ?thesis
    unfolding verify_integrity_def returned_def
    using assms ne d by (simp add: now_def say_def Let_def)
qed

lemma recorded_unchanged:
  assumes "recorded env d e"
  shows "\<not> entry_changed env d e" and "\<not> entry_missing env d e"
    and "\<exists>stored. subscript (snd e) ''hash'' = Inr stored"
  using assms
  by (auto simp: recorded_def entry_changed_def entry_missing_def path_exists_def
      calculate_hash_Regular)

text \<open>The guards of \<open>verify_integrity\<close> and the constructor's fallback.\<close>

lemma entry_shaped_hash: "entry_shaped v \<Longrightarrow> \<exists>stored. subscript v ''hash'' = Inr stored"
  by (cases v) auto

lemma returned_Inr: "returned x = Inr r \<Longrightarrow> \<not> isl x"
  by (cases x) (auto simp: returned_def)

lemma snapshot_shapedD:
  assumes "snapshot_shaped j"
  obtains kvs d items where "j = JObj kvs" "map_of kvs ''directory'' = Some (JStr d)"
    "map_of kvs ''files'' = Some (JObj items)" "\<forall>e \<in> set items. entry_shaped (snd e)"
  using assms unfolding snapshot_shaped_def
  by (auto split: json.splits option.splits simp: list_all_iff)

lemma verify_integrity_shaped_run:
  assumes shaped: "snapshot_shaped (baseline_data s)"
    and dir: "path_isdir env (baseline_dir (baseline_data s))"
  shows "\<exists>r. returned (verify_integrity env s) = Inr (Some r)"
proof -
  from shaped obtain kvs d items where
    j: "baseline_data s = JObj kvs" and d: "map_of kvs ''directory'' = Some (JStr d)"
    and f: "map_of kvs ''files'' = Some (JObj items)"
    and e: "\<forall>e \<in> set items. entry_shaped (snd e)"
    by (rule snapshot_shapedD)
  from j d have bd: "baseline_dir (baseline_data s) = d" by (simp add: baseline_dir_def)
  from e have "\<forall>e \<in> set items. path_exists env (path_join d (fst e)) \<longrightarrow>
      (\<exists>stored. subscript (snd e) ''hash'' = Inr stored)"
    using entry_shaped_hash by blast
  from check_entries_total [OF this, of "[]" "[]" "[]"]
  obtain changed missing ms where
    ce: "check_entries env (JStr d) items [] [] [] = Inr (changed, missing, ms)"
    by (metis prod_cases3)
  from verify_integrity_runI [OF j d _ f ce] dir bd show ?thesis by blast
qed

lemma verify_integrity_root_invalid:
  assumes "truthy (baseline_data s)" and "root_invalid env (baseline_data s)"
  shows "\<exists>v. py_get (baseline_data s) ''directory'' = Inr v
           \<and> verify_integrity env s = Inr (None, say [BaselineDirInvalid v] s)"
  using assms unfolding root_invalid_def verify_integrity_def
  by (auto split: json.splits option.splits simp: path_isdir_def)

lemma verify_integrity_falsy:
  "\<not> truthy (baseline_data s) \<Longrightarrow> verify_integrity env s = Inr (None, say [NoBaselineData] s)"
  by (simp add: verify_integrity_def)

lemma verify_integrity_shaped:
  assumes "snapshot_shaped (baseline_data s)"
  shows "\<not> isl (verify_integrity env s)"
proof (cases "path_isdir env (baseline_dir (baseline_data s))")
  case True
  from verify_integrity_shaped_run [OF assms True] obtain r where
    "returned (verify_integrity env s) = Inr (Some r)" by blast
  then show ?thesis by (rule returned_Inr)
next
  case False
  from assms obtain kvs d items where
    j: "baseline_data s = JObj kvs" and d: "map_of kvs ''directory'' = Some (JStr d)"
    by (rule snapshot_shapedD)
  from j d False have "root_invalid env (baseline_data s)" "truthy (baseline_data s)"
    by (auto simp: root_invalid_def baseline_dir_def)
  from verify_integrity_root_invalid [OF this(2,1)] show ?thesis by auto
qed

lemma init_fallback:
  assumes "store s = Absent \<or> store s = Unopenable \<or> store s = Malformed"
  shows "\<exists>ms. init s = Inr (say ms (s\<lparr>baseline_data := JObj []\<rparr>))"
  using assms by (auto simp: init_def load_baseline_def)

lemma init_content: "store s = Content j \<Longrightarrow> init s = Inr (s\<lparr>baseline_data := j\<rparr>)"
  by (simp add: init_def load_baseline_def say_def)

subsection \<open>Claims\<close>

text \<open>
  C7. When the path given to \<open>create_baseline\<close> does not exist or is not a directory,
  the method prints that the directory is not valid and stops: the in-memory
  snapshot, the baseline file and the clock are as before, and only that one message
  is added to the console.
\<close>

theorem create_baseline_invalid_directory:
  assumes "\<not> path_isdir env directory"
  shows "baseline_data (create_baseline env directory s) = baseline_data s
       \<and> store (create_baseline env directory s) = store s
       \<and> ticks (create_baseline env directory s) = ticks s
       \<and> out (create_baseline env directory s) = out s @ [NotValidDirectory directory]"
  using assms by (simp add: create_baseline_def say_def)

theorem create_baseline_invalid_directory_witness:
  "\<not> path_isdir (toy_env [(''notes.txt'', Regular ''x'')] []) ''notes.txt''
   \<and> baseline_data (create_baseline (toy_env [(''notes.txt'', Regular ''x'')] []) ''notes.txt''
        (fresh (Content (JObj [(''directory'', JStr ''d'')]))))
     = baseline_data (fresh (Content (JObj [(''directory'', JStr ''d'')])))
   \<and> store (create_baseline (toy_env [(''notes.txt'', Regular ''x'')] []) ''notes.txt''
        (fresh (Content (JObj [(''directory'', JStr ''d'')]))))
     = Content (JObj [(''directory'', JStr ''d'')])
   \<and> out (create_baseline (toy_env [(''notes.txt'', Regular ''x'')] []) ''notes.txt''
        (fresh (Content (JObj [(''directory'', JStr ''d'')]))))
     = [NotValidDirectory ''notes.txt'']"
proof -
  have h: "\<not> path_isdir (toy_env [(''notes.txt'', Regular ''x'')] []) ''notes.txt''"
    by (simp add: path_isdir_def toy_env_def)
  show ?thesis
    using h create_baseline_invalid_directory [OF h,
        of "fresh (Content (JObj [(''directory'', JStr ''d'')]))"]
    by (simp add: fresh_def)
qed

text \<open>
  C10. When \<open>verify_integrity\<close> stops at one of its two guards it returns None, and the
  snapshot, the baseline file and the clock are as before: only the message of the
  guard is printed. When it returns the dictionary, the snapshot was a non-empty
  object whose directory is an existing directory, the loop over the baseline entries
  ran to its end, and the three lists are the ones the two loops built.
\<close>

theorem verify_integrity_early_return:
  "(verify_integrity env s = Inr (None, s') \<longrightarrow>
      baseline_data s' = baseline_data s \<and> store s' = store s \<and> ticks s' = ticks s
      \<and> (out s' = out s @ [NoBaselineData]
         \<or> (\<exists>d. out s' = out s @ [BaselineDirInvalid d])))
   \<and> (verify_integrity env s = Inr (Some r, s') \<longrightarrow>
      truthy (baseline_data s)
      \<and> (\<exists>d items. py_get (baseline_data s) ''directory'' = Inr (JStr d) \<and> path_isdir env d
            \<and> subscript (baseline_data s) ''files'' = Inr (JObj items)
            \<and> (\<exists>ms. check_entries env (JStr d) items [] [] []
                       = Inr (changed_files r, missing_files r, ms))
            \<and> new_files r = filter (\<lambda>rel. rel \<notin> fst ` set items) (walk env d)))"
proof (rule conjI; rule impI)
  assume "verify_integrity env s = Inr (None, s')"
  from verify_integrity_NoneD [OF this]
  show "baseline_data s' = baseline_data s \<and> store s' = store s \<and> ticks s' = ticks s
      \<and> (out s' = out s @ [NoBaselineData]
         \<or> (\<exists>d. out s' = out s @ [BaselineDirInvalid d]))"
    by (auto simp: say_def)
next
  assume run: "verify_integrity env s = Inr (Some r, s')"
  from verify_integrity_SomeD [OF run] obtain d kvs items changed missing ms where
    *: "baseline_data s = JObj kvs" "kvs \<noteq> []"
       "map_of kvs ''directory'' = Some (JStr d)" "path_isdir env d"
       "map_of kvs ''files'' = Some (JObj items)"
       "check_entries env (JStr d) items [] [] [] = Inr (changed, missing, ms)"
       "r = \<lparr>changed_files = changed,
             new_files = filter (\<lambda>rel. rel \<notin> fst ` set items) (walk env d),
             missing_files = missing\<rparr>"
    by blast
  from * show "truthy (baseline_data s)
      \<and> (\<exists>d items. py_get (baseline_data s) ''directory'' = Inr (JStr d) \<and> path_isdir env d
            \<and> subscript (baseline_data s) ''files'' = Inr (JObj items)
            \<and> (\<exists>ms. check_entries env (JStr d) items [] [] []
                       = Inr (changed_files r, missing_files r, ms))
            \<and> new_files r = filter (\<lambda>rel. rel \<notin> fst ` set items) (walk env d))"
    by auto
qed

theorem verify_integrity_early_return_witness:
  "verify_integrity tree_before (fresh Absent) = Inr (None, (fresh Absent)\<lparr>out := [NoBaselineData]\<rparr>)
   \<and> baseline_data ((fresh Absent)\<lparr>out := [NoBaselineData]\<rparr>) = baseline_data (fresh Absent)
   \<and> store ((fresh Absent)\<lparr>out := [NoBaselineData]\<rparr>) = store (fresh Absent)
   \<and> ticks ((fresh Absent)\<lparr>out := [NoBaselineData]\<rparr>) = ticks (fresh Absent)
   \<and> returned (verify_integrity tree_after (create_baseline tree_before ''d'' (fresh Absent)))
       = Inr (Some \<lparr>changed_files = [''a.txt''], new_files = [''c.txt''], missing_files = [''sub/b.txt'']\<rparr>)
   \<and> truthy (baseline_data (create_baseline tree_before ''d'' (fresh Absent)))
   \<and> py_get (baseline_data (create_baseline tree_before ''d'' (fresh Absent))) ''directory'' = Inr (JStr ''d'')
   \<and> path_isdir tree_after ''d''"
proof -
  let ?s = "create_baseline tree_before ''d'' (fresh Absent)"
  let ?r = "\<lparr>changed_files = [''a.txt''], new_files = [''c.txt''], missing_files = [''sub/b.txt'']\<rparr>"
  have stop: "verify_integrity tree_before (fresh Absent) = Inr (None, (fresh Absent)\<lparr>out := [NoBaselineData]\<rparr>)"
    by (simp add: run_defs)
  obtain s' where run: "verify_integrity tree_after ?s = Inr (Some ?r, s')"
    by (simp add: run_defs)
  from verify_integrity_early_return [of tree_before "fresh Absent" "(fresh Absent)\<lparr>out := [NoBaselineData]\<rparr>" ?r] stop
  have a: "baseline_data ((fresh Absent)\<lparr>out := [NoBaselineData]\<rparr>) = baseline_data (fresh Absent)
   \<and> store ((fresh Absent)\<lparr>out := [NoBaselineData]\<rparr>) = store (fresh Absent)
   \<and> ticks ((fresh Absent)\<lparr>out := [NoBaselineData]\<rparr>) = ticks (fresh Absent)"
    by blast
  from verify_integrity_early_return [of tree_after ?s s' ?r] run
  have b: "truthy (baseline_data ?s) \<and> (\<exists>d. py_get (baseline_data ?s) ''directory'' = Inr (JStr d) \<and> path_isdir tree_after d)"
    by blast
  have c: "py_get (baseline_data ?s) ''directory'' = Inr (JStr ''d'')"
    by (simp add: baseline_of_tree_before)
  from a b c stop run show ?thesis by (auto simp: returned_def)
qed

text \<open>
  C1, as stated, fails. A baseline is created on a tree with \<open>a.txt\<close> and
  \<open>sub/b.txt\<close>; then \<open>a.txt\<close> is replaced by a dangling symbolic link. The walk
  still lists \<open>a.txt\<close>, but \<^verbatim>\<open>os.path.exists\<close> answers False for it, so
  \<open>verify_integrity\<close> reports it missing: an on-disk path that is in none of unchanged,
  changed and new.
\<close>

theorem verify_integrity_partition_counterexample:
  "returned (verify_integrity tree_dangling (create_baseline tree_before ''d'' (fresh Absent)))
     = Inr (Some \<lparr>changed_files = [], new_files = [], missing_files = [''a.txt'']\<rparr>)
   \<and> ''a.txt'' \<in> set (walk tree_dangling ''d'')
   \<and> \<not> disk_partition (walk tree_dangling ''d'') [''a.txt'', ''sub/b.txt'']
         \<lparr>changed_files = [], new_files = [], missing_files = [''a.txt'']\<rparr>"
  by (simp add: run_defs disk_partition_def one_of_def unchanged_files_def)

text \<open>
  C1, amended. For every completed run of \<open>verify_integrity\<close>: every baseline entry is
  in exactly one of unchanged, changed and missing; every path the walk lists and
  \<^verbatim>\<open>os.path.exists\<close> confirms is in exactly one of unchanged, changed and new;
  and the three returned lists are pairwise disjoint.
\<close>

theorem verify_integrity_partition:
  assumes "verify_integrity env s = Inr (Some r, s')"
  shows "baseline_partition (map fst (baseline_items (baseline_data s))) r
       \<and> disk_partition
           (filter (\<lambda>p. path_exists env (path_join (baseline_dir (baseline_data s)) p))
              (walk env (baseline_dir (baseline_data s))))
           (map fst (baseline_items (baseline_data s))) r
       \<and> lists_disjoint r"
proof -
  let ?d = "baseline_dir (baseline_data s)" and ?items = "baseline_items (baseline_data s)"
  from verify_integrity_lists [OF assms] have
    ch: "changed_files r = map fst (filter (entry_changed env ?d) ?items)" and
    mi: "missing_files r = map fst (filter (entry_missing env ?d) ?items)" and
    nw: "new_files r = filter (\<lambda>rel. rel \<notin> fst ` set ?items) (walk env ?d)"
    by simp_all
  have ch_ex: "\<And>k. k \<in> set (changed_files r) \<Longrightarrow> k \<in> fst ` set ?items \<and> path_exists env (path_join ?d k)"
    unfolding ch by (auto simp: entry_changed_def)
  have mi_ex: "\<And>k. k \<in> set (missing_files r) \<Longrightarrow> k \<in> fst ` set ?items \<and> \<not> path_exists env (path_join ?d k)"
    unfolding mi by (auto simp: entry_missing_def)
  have nw_ex: "\<And>k. k \<in> set (new_files r) \<longleftrightarrow> k \<in> set (walk env ?d) \<and> k \<notin> fst ` set ?items"
    unfolding nw by auto
  have dj: "lists_disjoint r"
    unfolding lists_disjoint_def using ch_ex mi_ex nw_ex by blast
  have bp: "baseline_partition (map fst ?items) r"
    unfolding baseline_partition_def one_of3 unchanged_files_def using ch_ex mi_ex by auto
  have dp: "disk_partition (filter (\<lambda>p. path_exists env (path_join ?d p)) (walk env ?d)) (map fst ?items) r"
    unfolding disk_partition_def one_of3 unchanged_files_def
  proof
    fix p assume "p \<in> set (filter (\<lambda>p. path_exists env (path_join ?d p)) (walk env ?d))"
    then have w: "p \<in> set (walk env ?d)" and e: "path_exists env (path_join ?d p)" by auto
    show "p \<in> set (filter (\<lambda>k. k \<notin> set (changed_files r) \<and> k \<notin> set (missing_files r)) (map fst ?items)) \<and>
          p \<notin> set (changed_files r) \<and> p \<notin> set (new_files r) \<or>
          p \<notin> set (filter (\<lambda>k. k \<notin> set (changed_files r) \<and> k \<notin> set (missing_files r)) (map fst ?items)) \<and>
          p \<in> set (changed_files r) \<and> p \<notin> set (new_files r) \<or>
          p \<notin> set (filter (\<lambda>k. k \<notin> set (changed_files r) \<and> k \<notin> set (missing_files r)) (map fst ?items)) \<and>
          p \<notin> set (changed_files r) \<and> p \<in> set (new_files r)"
      using w e ch_ex [of p] mi_ex [of p] nw_ex [of p] by auto
  qed
  from bp dp dj show ?thesis by blast
qed

theorem verify_integrity_partition_witness:
  "returned (verify_integrity tree_after (create_baseline tree_before ''d'' (fresh Absent)))
     = Inr (Some \<lparr>changed_files = [''a.txt''], new_files = [''c.txt''], missing_files = [''sub/b.txt'']\<rparr>)
   \<and> baseline_partition [''a.txt'', ''sub/b.txt'']
        \<lparr>changed_files = [''a.txt''], new_files = [''c.txt''], missing_files = [''sub/b.txt'']\<rparr>
   \<and> disk_partition [''a.txt'', ''c.txt''] [''a.txt'', ''sub/b.txt'']
        \<lparr>changed_files = [''a.txt''], new_files = [''c.txt''], missing_files = [''sub/b.txt'']\<rparr>
   \<and> lists_disjoint
        \<lparr>changed_files = [''a.txt''], new_files = [''c.txt''], missing_files = [''sub/b.txt'']\<rparr>"
proof -
  let ?s = "create_baseline tree_before ''d'' (fresh Absent)"
  let ?r = "\<lparr>changed_files = [''a.txt''], new_files = [''c.txt''], missing_files = [''sub/b.txt'']\<rparr>"
  obtain s' where run: "verify_integrity tree_after ?s = Inr (Some ?r, s')"
    by (simp add: run_defs)
  have items: "baseline_items (baseline_data ?s) =
      [(''a.txt'', JObj [(''hash'', JStr (hex64 5)), (''last_checked'', JStr ''II'')]),
       (''sub/b.txt'', JObj [(''hash'', JStr (hex64 5)), (''last_checked'', JStr ''III'')])]"
    and dir: "baseline_dir (baseline_data ?s) = ''d''"
    by (simp_all add: baseline_of_tree_before baseline_items_def baseline_dir_def)
  have disk: "filter (\<lambda>p. path_exists tree_after (path_join ''d'' p)) (walk tree_after ''d'') = [''a.txt'', ''c.txt'']"
    by (simp add: run_defs)
  from verify_integrity_partition [OF run] run show ?thesis
    unfolding items dir disk by (simp add: returned_def)
qed

text \<open>
  C2. A baseline entry whose file exists at verify time but whose digest cannot be
  computed (\<open>calculate_hash\<close> returns None) is reported in \<open>changed_files\<close> and not in
  \<open>missing_files\<close>: None is not equal to the stored digest string.
\<close>

theorem verify_integrity_unreadable_changed:
  assumes run: "verify_integrity env s = Inr (Some r, s')"
    and entry: "(k, v) \<in> set (baseline_items (baseline_data s))"
    and stored: "subscript v ''hash'' = Inr (JStr h)"
    and there: "path_exists env (path_join (baseline_dir (baseline_data s)) k)"
    and sentinel: "fst (calculate_hash env (path_join (baseline_dir (baseline_data s)) k)) = None"
  shows "k \<in> set (changed_files r) \<and> k \<notin> set (missing_files r)"
proof -
  let ?d = "baseline_dir (baseline_data s)" and ?items = "baseline_items (baseline_data s)"
  from verify_integrity_lists [OF run] have
    ch: "changed_files r = map fst (filter (entry_changed env ?d) ?items)" and
    mi: "missing_files r = map fst (filter (entry_missing env ?d) ?items)"
    by simp_all
  have "entry_changed env ?d (k, v)"
    using stored there sentinel by (simp add: entry_changed_def)
  with entry have "(k, v) \<in> set (filter (entry_changed env ?d) ?items)" by simp
  then have 1: "k \<in> set (changed_files r)" unfolding ch by force
  have 2: "k \<notin> set (missing_files r)"
    unfolding mi using there by (auto simp: entry_missing_def)
  from 1 2 show ?thesis ..
qed

theorem verify_integrity_unreadable_changed_witness:
  "returned (verify_integrity tree_after (create_baseline tree_before ''d'' (fresh Absent)))
     = Inr (Some \<lparr>changed_files = [''a.txt''], new_files = [''c.txt''], missing_files = [''sub/b.txt'']\<rparr>)
   \<and> path_exists tree_after (path_join ''d'' ''a.txt'')
   \<and> fst (calculate_hash tree_after (path_join ''d'' ''a.txt'')) = None
   \<and> ''a.txt'' \<in> set [''a.txt''] \<and> ''a.txt'' \<notin> set [''sub/b.txt'']"
proof -
  let ?s = "create_baseline tree_before ''d'' (fresh Absent)"
  let ?r = "\<lparr>changed_files = [''a.txt''], new_files = [''c.txt''], missing_files = [''sub/b.txt'']\<rparr>"
  let ?v = "JObj [(''hash'', JStr (hex64 5)), (''last_checked'', JStr ''II'')]"
  obtain s' where run: "verify_integrity tree_after ?s = Inr (Some ?r, s')"
    by (simp add: run_defs)
  have dir: "baseline_dir (baseline_data ?s) = ''d''"
    by (simp add: baseline_of_tree_before baseline_dir_def)
  have entry: "(''a.txt'', ?v) \<in> set (baseline_items (baseline_data ?s))"
    by (simp add: baseline_of_tree_before baseline_items_def)
  have stored: "subscript ?v ''hash'' = Inr (JStr (hex64 5))" by simp
  have there: "path_exists tree_after (path_join (baseline_dir (baseline_data ?s)) ''a.txt'')"
    unfolding dir by (simp add: run_defs)
  have sentinel: "fst (calculate_hash tree_after (path_join (baseline_dir (baseline_data ?s)) ''a.txt'')) = None"
    unfolding dir by (simp add: run_defs)
  from verify_integrity_unreadable_changed [OF run entry stored there sentinel] run there sentinel
  show ?thesis unfolding dir by (simp add: returned_def)
qed

text \<open>
  C9. A baseline entry whose path now names a directory (or a file that cannot be
  opened for reading) passes the existence check, gets None from \<open>calculate_hash\<close>,
  and is therefore reported in \<open>changed_files\<close>, not in \<open>missing_files\<close>.
\<close>

theorem verify_integrity_directory_changed:
  assumes run: "verify_integrity env s = Inr (Some r, s')"
    and entry: "(k, v) \<in> set (baseline_items (baseline_data s))"
    and stored: "subscript v ''hash'' = Inr (JStr h)"
    and node: "node_at env (path_join (baseline_dir (baseline_data s)) k) = Some Directory
             \<or> node_at env (path_join (baseline_dir (baseline_data s)) k) = Some Unreadable"
  shows "path_exists env (path_join (baseline_dir (baseline_data s)) k)
       \<and> fst (calculate_hash env (path_join (baseline_dir (baseline_data s)) k)) = None
       \<and> k \<in> set (changed_files r) \<and> k \<notin> set (missing_files r)"
proof -
  let ?d = "baseline_dir (baseline_data s)" and ?items = "baseline_items (baseline_data s)"
  from node have there: "path_exists env (path_join ?d k)"
    by (auto simp: path_exists_def)
  from node have sentinel: "fst (calculate_hash env (path_join ?d k)) = None"
    by (auto simp: calculate_hash_def)
  from verify_integrity_lists [OF run] have
    ch: "changed_files r = map fst (filter (entry_changed env ?d) ?items)" and
    mi: "missing_files r = map fst (filter (entry_missing env ?d) ?items)"
    by simp_all
  have "entry_changed env ?d (k, v)"
    using stored there sentinel by (simp add: entry_changed_def)
  with entry have "(k, v) \<in> set (filter (entry_changed env ?d) ?items)" by simp
  then have 1: "k \<in> set (changed_files r)" unfolding ch by force
  have 2: "k \<notin> set (missing_files r)"
    unfolding mi using there by (auto simp: entry_missing_def)
  from there sentinel 1 2 show ?thesis by blast
qed

theorem verify_integrity_directory_changed_witness:
  "returned (verify_integrity tree_replaced (create_baseline tree_before ''d'' (fresh Absent)))
     = Inr (Some \<lparr>changed_files = [''a.txt''], new_files = [''a.txt/c''], missing_files = []\<rparr>)
   \<and> node_at tree_replaced (path_join ''d'' ''a.txt'') = Some Directory
   \<and> path_exists tree_replaced (path_join ''d'' ''a.txt'')
   \<and> fst (calculate_hash tree_replaced (path_join ''d'' ''a.txt'')) = None
   \<and> ''a.txt'' \<in> set [''a.txt''] \<and> ''a.txt'' \<notin> set []"
proof -
  let ?s = "create_baseline tree_before ''d'' (fresh Absent)"
  let ?r = "\<lparr>changed_files = [''a.txt''], new_files = [''a.txt/c''], missing_files = []\<rparr>"
  let ?v = "JObj [(''hash'', JStr (hex64 5)), (''last_checked'', JStr ''II'')]"
  obtain s' where run: "verify_integrity tree_replaced ?s = Inr (Some ?r, s')"
    by (simp add: run_defs)
  have dir: "baseline_dir (baseline_data ?s) = ''d''"
    by (simp add: baseline_of_tree_before baseline_dir_def)
  have entry: "(''a.txt'', ?v) \<in> set (baseline_items (baseline_data ?s))"
    by (simp add: baseline_of_tree_before baseline_items_def)
  have stored: "subscript ?v ''hash'' = Inr (JStr (hex64 5))" by simp
  have node: "node_at tree_replaced (path_join ''d'' ''a.txt'') = Some Directory"
    by (simp add: run_defs)
  then have node': "node_at tree_replaced (path_join (baseline_dir (baseline_data ?s)) ''a.txt'') = Some Directory
      \<or> node_at tree_replaced (path_join (baseline_dir (baseline_data ?s)) ''a.txt'') = Some Unreadable"
    unfolding dir by simp
  from verify_integrity_directory_changed [OF run entry stored node'] run node
  show ?thesis unfolding dir by (simp add: returned_def)
qed

text \<open>
  C6. A completed run of \<open>verify_integrity\<close> changes the snapshot only by setting
  the top-level \<open>last_checked\<close>: every other top-level key reads as before, in
  particular \<open>files\<close> (so every entry key, stored digest and per-entry
  \<open>last_checked\<close>), \<open>directory\<close> and \<open>timestamp\<close>; and when the baseline file can
  be written, what is persisted is exactly that snapshot.
\<close>

theorem verify_integrity_frame:
  assumes run: "verify_integrity env s = Inr (Some r, s')"
  shows "(\<exists>kvs. baseline_data s = JObj kvs
            \<and> baseline_data s' = JObj (dict_set kvs ''last_checked'' (JStr (iso env (ticks s)))))
       \<and> (\<forall>k. k \<noteq> ''last_checked'' \<longrightarrow> py_get (baseline_data s') k = py_get (baseline_data s) k)
       \<and> subscript (baseline_data s') ''files'' = subscript (baseline_data s) ''files''
       \<and> subscript (baseline_data s') ''directory'' = subscript (baseline_data s) ''directory''
       \<and> subscript (baseline_data s') ''timestamp'' = subscript (baseline_data s) ''timestamp''
       \<and> (writable s \<longrightarrow> store s' = Content (baseline_data s'))
       \<and> (\<not> writable s \<longrightarrow> store s' = store s)"
proof -
  from verify_integrity_SomeD [OF run] obtain d kvs items changed missing ms where
    kv: "baseline_data s = JObj kvs" and
    s': "s' = save_baseline
             (s\<lparr>out := out s @ ms @ report changed (new_files r) missing,
                ticks := Suc (ticks s),
                baseline_data := JObj (dict_set kvs ''last_checked'' (JStr (iso env (ticks s))))\<rparr>)"
    by blast
  have data: "baseline_data s' = JObj (dict_set kvs ''last_checked'' (JStr (iso env (ticks s))))"
    unfolding s' by (simp add: save_baseline_def say_def)
  have other: "\<And>k. k \<noteq> ''last_checked'' \<Longrightarrow>
      map_of (dict_set kvs ''last_checked'' (JStr (iso env (ticks s)))) k = map_of kvs k"
    by (simp add: map_of_dict_set)
  have w: "writable s \<longrightarrow> store s' = Content (baseline_data s')"
    unfolding s' by (simp add: save_baseline_def say_def)
  have nw: "\<not> writable s \<longrightarrow> store s' = store s"
    unfolding s' by (simp add: save_baseline_def say_def)
  show ?thesis
    using kv data w nw other by simp
qed

theorem verify_integrity_frame_witness:
  "returned (verify_integrity tree_after (create_baseline tree_before ''d'' (fresh Absent)))
     = Inr (Some \<lparr>changed_files = [''a.txt''], new_files = [''c.txt''], missing_files = [''sub/b.txt'']\<rparr>)
   \<and> map_option baseline_data
         (after (verify_integrity tree_after (create_baseline tree_before ''d'' (fresh Absent))))
     = Some (JObj [(''directory'', JStr ''d''), (''timestamp'', JStr ''I''),
         (''files'', JObj [(''a.txt'', JObj [(''hash'', JStr (hex64 5)), (''last_checked'', JStr ''II'')]),
                          (''sub/b.txt'', JObj [(''hash'', JStr (hex64 5)), (''last_checked'', JStr ''III'')])]),
         (''last_checked'', JStr ''IIII'')])
   \<and> map_option store
         (after (verify_integrity tree_after (create_baseline tree_before ''d'' (fresh Absent))))
     = Some (Content (JObj [(''directory'', JStr ''d''), (''timestamp'', JStr ''I''),
         (''files'', JObj [(''a.txt'', JObj [(''hash'', JStr (hex64 5)), (''last_checked'', JStr ''II'')]),
                          (''sub/b.txt'', JObj [(''hash'', JStr (hex64 5)), (''last_checked'', JStr ''III'')])]),
         (''last_checked'', JStr ''IIII'')]))"
proof -
  let ?s = "create_baseline tree_before ''d'' (fresh Absent)"
  let ?r = "\<lparr>changed_files = [''a.txt''], new_files = [''c.txt''], missing_files = [''sub/b.txt'']\<rparr>"
  obtain s' where run: "verify_integrity tree_after ?s = Inr (Some ?r, s')"
    by (simp add: run_defs)
  have t: "ticks ?s = 3" and w: "writable ?s"
    by (simp_all add: run_defs)
  have i: "iso tree_after 3 = ''IIII''"
    by (simp add: run_defs numeral_3_eq_3)
  from verify_integrity_frame [OF run] w
  have "baseline_data s' = JObj (dict_set
          [(''directory'', JStr ''d''), (''timestamp'', JStr ''I''),
           (''files'', JObj [(''a.txt'', JObj [(''hash'', JStr (hex64 5)), (''last_checked'', JStr ''II'')]),
                          (''sub/b.txt'', JObj [(''hash'', JStr (hex64 5)), (''last_checked'', JStr ''III'')])])]
          ''last_checked'' (JStr (iso tree_after (ticks ?s))))"
    and "store s' = Content (baseline_data s')"
    unfolding baseline_of_tree_before by auto
  then show ?thesis
    unfolding run t i by (simp add: returned_def after_def)
qed

text \<open>
  C8, as stated, fails. On a tree with a file that cannot be read, \<open>create_baseline\<close>
  leaves that file out of the snapshot, and \<open>verify_integrity\<close>, run at once on the
  untouched tree, finds it on the walk and not among the keys: it is reported new.
\<close>

theorem verify_after_create_counterexample:
  "returned (verify_integrity tree_locked (create_baseline tree_locked ''d'' (fresh Absent)))
     = Inr (Some \<lparr>changed_files = [], new_files = [''secret''], missing_files = []\<rparr>)"
  by (simp add: run_defs tree_locked_def)

text \<open>
  C8, amended. For every directory whose walked files are all readable (the baseline
  file lying outside the tree), \<open>verify_integrity\<close> run right after \<open>create_baseline\<close>
  returns three empty lists.
\<close>

theorem verify_after_create:
  assumes dir: "path_isdir env d"
    and readable: "\<forall>p \<in> set (walk env d). \<exists>bs. node_at env (path_join d p) = Some (Regular bs)"
  shows "returned (verify_integrity env (create_baseline env d s)) =
     Inr (Some \<lparr>changed_files = [], new_files = [], missing_files = []\<rparr>)"
proof -
  let ?s0 = "s\<lparr>ticks := Suc (ticks s)\<rparr>"
  let ?files = "fst (hash_files env d (walk env d) [] ?s0)"
  let ?kvs = "[(''directory'', JStr d), (''timestamp'', JStr (iso env (ticks s))), (''files'', JObj ?files)]"
  have data: "baseline_data (create_baseline env d s) = JObj ?kvs"
    by (rule create_baseline_data [OF dir])
  from hash_files_regular [OF readable, of "[]" ?s0]
  have rec: "\<forall>e \<in> set ?files. recorded env d e" and keys: "fst ` set ?files = set (walk env d)"
    by simp_all
  from rec have "\<forall>e \<in> set ?files. path_exists env (path_join d (fst e)) \<longrightarrow>
      (\<exists>stored. subscript (snd e) ''hash'' = Inr stored)"
    using recorded_unchanged(3) by blast
  from check_entries_total [OF this, of "[]" "[]" "[]"]
  obtain changed missing ms where
    ce: "check_entries env (JStr d) ?files [] [] [] = Inr (changed, missing, ms)"
    by (metis prod_cases3)
  from check_entries_Inr [OF ce] rec have ch: "changed = []" and mi: "missing = []"
    using recorded_unchanged(1,2) by (auto simp: filter_empty_conv)
  have nw: "filter (\<lambda>rel. rel \<notin> fst ` set ?files) (walk env d) = []"
    unfolding keys by (simp add: filter_empty_conv)
  have "returned (verify_integrity env (create_baseline env d s)) =
     Inr (Some \<lparr>changed_files = changed,
                new_files = filter (\<lambda>rel. rel \<notin> fst ` set ?files) (walk env d),
                missing_files = missing\<rparr>)"
    by (rule verify_integrity_runI [OF data _ dir _ ce]) simp_all
  then show ?thesis unfolding ch mi nw .
qed

theorem verify_after_create_witness:
  "path_isdir tree_before ''d''
   \<and> walk tree_before ''d'' = [''a.txt'', ''sub/b.txt'']
   \<and> node_at tree_before (path_join ''d'' ''a.txt'') = Some (Regular ''hello'')
   \<and> node_at tree_before (path_join ''d'' ''sub/b.txt'') = Some (Regular ''world'')
   \<and> returned (verify_integrity tree_before (create_baseline tree_before ''d'' (fresh Absent)))
       = Inr (Some \<lparr>changed_files = [], new_files = [], missing_files = []\<rparr>)"
proof -
  have dir: "path_isdir tree_before ''d''" by (simp add: run_defs)
  have readable: "\<forall>p \<in> set (walk tree_before ''d''). \<exists>bs. node_at tree_before (path_join ''d'' p) = Some (Regular bs)"
    by (simp add: run_defs)
  have nodes: "walk tree_before ''d'' = [''a.txt'', ''sub/b.txt'']"
    "node_at tree_before (path_join ''d'' ''a.txt'') = Some (Regular ''hello'')"
    "node_at tree_before (path_join ''d'' ''sub/b.txt'') = Some (Regular ''world'')"
    by (simp_all add: run_defs)
  from verify_after_create [OF dir readable, of "fresh Absent"] dir nodes
  show ?thesis by blast
qed

text \<open>
  C5. For a directory whose walked files are all readable, the snapshot that
  \<open>create_baseline\<close> builds has the input path as its \<open>directory\<close>, exactly one entry
  per walked file, keyed by the relative path (in walk order when the walk lists no
  path twice), and the stored hash of each entry is the digest of the file's whole
  content, rendered as 64 lowercase hexadecimal digits. The digest function is the
  one of \<^verbatim>\<open>hashlib.sha256\<close>, a parameter of the model; reading in blocks of 4096
  bytes feeds it the whole content.
\<close>

theorem create_baseline_snapshot:
  assumes dir: "path_isdir env d"
    and readable: "\<forall>p \<in> set (walk env d). \<exists>bs. node_at env (path_join d p) = Some (Regular bs)"
  shows "subscript (baseline_data (create_baseline env d s)) ''directory'' = Inr (JStr d)
       \<and> set (map fst (baseline_items (baseline_data (create_baseline env d s)))) = set (walk env d)
       \<and> distinct (map fst (baseline_items (baseline_data (create_baseline env d s))))
       \<and> (distinct (walk env d) \<longrightarrow>
            map fst (baseline_items (baseline_data (create_baseline env d s))) = walk env d)
       \<and> (\<forall>p bs. p \<in> set (walk env d) \<and> node_at env (path_join d p) = Some (Regular bs) \<longrightarrow>
            (\<exists>t. map_of (baseline_items (baseline_data (create_baseline env d s))) p =
                   Some (JObj [(''hash'', JStr (hex64 (sha256 env bs))), (''last_checked'', JStr t)])))
       \<and> (\<forall>w. length (hex64 w) = 64 \<and> set (hex64 w) \<subseteq> set ''0123456789abcdef'')"
proof -
  let ?s0 = "s\<lparr>ticks := Suc (ticks s)\<rparr>"
  let ?files = "fst (hash_files env d (walk env d) [] ?s0)"
  have data: "baseline_data (create_baseline env d s) =
     JObj [(''directory'', JStr d), (''timestamp'', JStr (iso env (ticks s))), (''files'', JObj ?files)]"
    by (rule create_baseline_data [OF dir])
  have items: "baseline_items (baseline_data (create_baseline env d s)) = ?files"
    unfolding data by (simp add: baseline_items_def)
  from hash_files_regular [OF readable, of "[]" ?s0]
  have rec: "\<forall>e \<in> set ?files. recorded env d e"
    and keys: "fst ` set ?files = set (walk env d)"
    and order: "distinct (walk env d) \<longrightarrow> map fst ?files = walk env d"
    by simp_all
  have dist: "distinct (map fst ?files)"
    by (rule hash_files_distinct) simp
  have entry: "\<exists>t. map_of ?files p =
      Some (JObj [(''hash'', JStr (hex64 (sha256 env bs))), (''last_checked'', JStr t)])"
    if p: "p \<in> set (walk env d)" and n: "node_at env (path_join d p) = Some (Regular bs)" for p bs
  proof -
    from p keys obtain v where v: "(p, v) \<in> set ?files" by force
    with rec have "recorded env d (p, v)" by blast
    with n obtain t where
      "v = JObj [(''hash'', JStr (hex64 (sha256 env bs))), (''last_checked'', JStr t)]"
      by (auto simp: recorded_def)
    moreover from dist v have "map_of ?files p = Some v" by simp
    ultimately show ?thesis by blast
  qed
  have hex: "\<forall>w. length (hex64 w) = 64 \<and> set (hex64 w) \<subseteq> set ''0123456789abcdef''"
    using length_hex64 hex64_lower by blast
  have 1: "subscript (baseline_data (create_baseline env d s)) ''directory'' = Inr (JStr d)"
    unfolding data by simp
  have 2: "set (map fst ?files) = set (walk env d)" using keys by simp
  from 1 2 dist order entry hex show ?thesis unfolding items by blast
qed

theorem create_baseline_snapshot_witness:
  "path_isdir tree_before ''d''
   \<and> walk tree_before ''d'' = [''a.txt'', ''sub/b.txt'']
   \<and> node_at tree_before (path_join ''d'' ''a.txt'') = Some (Regular ''hello'')
   \<and> node_at tree_before (path_join ''d'' ''sub/b.txt'') = Some (Regular ''world'')
   \<and> subscript (baseline_data (create_baseline tree_before ''d'' (fresh Absent))) ''directory'' = Inr (JStr ''d'')
   \<and> map fst (baseline_items (baseline_data (create_baseline tree_before ''d'' (fresh Absent))))
       = [''a.txt'', ''sub/b.txt'']
   \<and> map_of (baseline_items (baseline_data (create_baseline tree_before ''d'' (fresh Absent)))) ''a.txt''
       = Some (JObj [(''hash'', JStr (hex64 (sha256 tree_before ''hello''))), (''last_checked'', JStr ''II'')])
   \<and> map_of (baseline_items (baseline_data (create_baseline tree_before ''d'' (fresh Absent)))) ''sub/b.txt''
       = Some (JObj [(''hash'', JStr (hex64 (sha256 tree_before ''world''))), (''last_checked'', JStr ''III'')])"
proof -
  have dir: "path_isdir tree_before ''d''" by (simp add: run_defs)
  have readable: "\<forall>p \<in> set (walk tree_before ''d''). \<exists>bs. node_at tree_before (path_join ''d'' p) = Some (Regular bs)"
    by (simp add: run_defs)
  have w: "walk tree_before ''d'' = [''a.txt'', ''sub/b.txt'']" by (simp add: run_defs)
  have h: "sha256 tree_before ''hello'' = 5" "sha256 tree_before ''world'' = 5"
    by (simp_all add: run_defs)
  have nodes: "node_at tree_before (path_join ''d'' ''a.txt'') = Some (Regular ''hello'')"
    "node_at tree_before (path_join ''d'' ''sub/b.txt'') = Some (Regular ''world'')"
    by (simp_all add: run_defs)
  from create_baseline_snapshot [OF dir readable, of "fresh Absent"] dir nodes
  show ?thesis
    unfolding w h by (simp add: baseline_of_tree_before baseline_items_def)
qed

text \<open>
  C4, as stated, fails in its last clause. A snapshot with a root directory and an
  entry, whose directory no longer exists: \<open>verify_integrity\<close> stops at its second
  guard, prints that the baseline directory is not valid and compares nothing.
\<close>

theorem verify_integrity_guards_counterexample:
  "baseline_dir stale_snapshot = ''gone''
   \<and> baseline_items stale_snapshot \<noteq> []
   \<and> returned (main_verify tree_before (fresh (Content stale_snapshot))) = Inr None
   \<and> map_option out (after (main_verify tree_before (fresh (Content stale_snapshot))))
       = Some [BaselineDirInvalid (JStr ''gone'')]"
  by (simp add: run_defs stale_snapshot_def baseline_dir_def baseline_items_def after_def)

text \<open>
  C4, amended. When the snapshot is empty (falsy), which is what the constructor
  holds after a missing, unopenable or malformed baseline file, \<open>verify_integrity\<close>
  prints that there is no baseline data and returns None without comparing. When the
  snapshot has the shape of a saved baseline and its directory exists, the
  comparison runs and the lists are returned. When the snapshot is not empty but its
  directory is absent or is not an existing directory, the method prints that the
  baseline directory is not valid and returns None.
\<close>

theorem verify_integrity_guards:
  "(\<not> truthy (baseline_data s) \<longrightarrow>
      verify_integrity env s = Inr (None, say [NoBaselineData] s))
   \<and> (store s = Absent \<or> store s = Unopenable \<or> store s = Malformed \<longrightarrow>
      returned (main_verify env s) = Inr None
      \<and> (\<exists>ms. map_option out (after (main_verify env s)) = Some (out s @ ms @ [NoBaselineData])))
   \<and> (snapshot_shaped (baseline_data s) \<and> path_isdir env (baseline_dir (baseline_data s)) \<longrightarrow>
      (\<exists>r. returned (verify_integrity env s) = Inr (Some r)))
   \<and> (truthy (baseline_data s) \<and> root_invalid env (baseline_data s) \<longrightarrow>
      (\<exists>v. py_get (baseline_data s) ''directory'' = Inr v
           \<and> verify_integrity env s = Inr (None, say [BaselineDirInvalid v] s)))"
proof (intro conjI impI)
  assume "\<not> truthy (baseline_data s)"
  then show "verify_integrity env s = Inr (None, say [NoBaselineData] s)"
    by (rule verify_integrity_falsy)
next
  assume a: "store s = Absent \<or> store s = Unopenable \<or> store s = Malformed"
  from init_fallback [OF a] obtain ms where
    i: "init s = Inr (say ms (s\<lparr>baseline_data := JObj []\<rparr>))" by blast
  have v: "main_verify env s =
      Inr (None, say [NoBaselineData] (say ms (s\<lparr>baseline_data := JObj []\<rparr>)))"
    unfolding main_verify_def i by (simp add: verify_integrity_falsy say_def)
  show "returned (main_verify env s) = Inr None"
    unfolding v by (simp add: returned_def)
  show "\<exists>ms. map_option out (after (main_verify env s)) = Some (out s @ ms @ [NoBaselineData])"
    unfolding v by (simp add: after_def say_def)
next
  assume "snapshot_shaped (baseline_data s) \<and> path_isdir env (baseline_dir (baseline_data s))"
  then show "\<exists>r. returned (verify_integrity env s) = Inr (Some r)"
    using verify_integrity_shaped_run by blast
next
  assume "truthy (baseline_data s) \<and> root_invalid env (baseline_data s)"
  then show "\<exists>v. py_get (baseline_data s) ''directory'' = Inr v
           \<and> verify_integrity env s = Inr (None, say [BaselineDirInvalid v] s)"
    using verify_integrity_root_invalid by blast
qed

theorem verify_integrity_guards_witness:
  "\<not> truthy (baseline_data (fresh Absent))
   \<and> verify_integrity tree_before (fresh Absent) = Inr (None, say [NoBaselineData] (fresh Absent))
   \<and> store (fresh Malformed) = Malformed
   \<and> returned (main_verify tree_before (fresh Malformed)) = Inr None
   \<and> map_option out (after (main_verify tree_before (fresh Malformed))) = Some [ErrorLoading, NoBaselineData]
   \<and> snapshot_shaped (baseline_data (create_baseline tree_before ''d'' (fresh Absent)))
   \<and> path_isdir tree_after (baseline_dir (baseline_data (create_baseline tree_before ''d'' (fresh Absent))))
   \<and> returned (verify_integrity tree_after (create_baseline tree_before ''d'' (fresh Absent)))
       = Inr (Some \<lparr>changed_files = [''a.txt''], new_files = [''c.txt''], missing_files = [''sub/b.txt'']\<rparr>)
   \<and> truthy stale_snapshot \<and> root_invalid tree_before stale_snapshot
   \<and> verify_integrity tree_before ((fresh Absent)\<lparr>baseline_data := stale_snapshot\<rparr>)
       = Inr (None, say [BaselineDirInvalid (JStr ''gone'')] ((fresh Absent)\<lparr>baseline_data := stale_snapshot\<rparr>))"
proof -
  let ?s = "create_baseline tree_before ''d'' (fresh Absent)"
  let ?t = "(fresh Absent)\<lparr>baseline_data := stale_snapshot\<rparr>"
  have h1: "\<not> truthy (baseline_data (fresh Absent))" by (simp add: fresh_def)
  have h2: "store (fresh Malformed) = Absent \<or> store (fresh Malformed) = Unopenable
      \<or> store (fresh Malformed) = Malformed" by (simp add: fresh_def)
  have h3: "snapshot_shaped (baseline_data ?s) \<and> path_isdir tree_after (baseline_dir (baseline_data ?s))"
    by (simp add: baseline_of_tree_before snapshot_shaped_def baseline_dir_def run_defs)
  have h4: "truthy (baseline_data ?t) \<and> root_invalid tree_before (baseline_data ?t)"
    by (simp add: stale_snapshot_def root_invalid_def run_defs)
  from verify_integrity_guards [of "fresh Absent" tree_before] h1
  have r1: "verify_integrity tree_before (fresh Absent) = Inr (None, say [NoBaselineData] (fresh Absent))"
    by blast
  from verify_integrity_guards [of "fresh Malformed" tree_before] h2
  have r2: "returned (main_verify tree_before (fresh Malformed)) = Inr None" by blast
  have r2': "map_option out (after (main_verify tree_before (fresh Malformed))) = Some [ErrorLoading, NoBaselineData]"
    by (simp add: run_defs after_def)
  from verify_integrity_guards [of ?s tree_after] h3
  have "\<exists>r. returned (verify_integrity tree_after ?s) = Inr (Some r)" by blast
  moreover have r3: "returned (verify_integrity tree_after ?s)
       = Inr (Some \<lparr>changed_files = [''a.txt''], new_files = [''c.txt''], missing_files = [''sub/b.txt'']\<rparr>)"
    by (simp add: run_defs)
  from verify_integrity_guards [of ?t tree_before] h4
  have "\<exists>v. py_get (baseline_data ?t) ''directory'' = Inr v
           \<and> verify_integrity tree_before ?t = Inr (None, say [BaselineDirInvalid v] ?t)" by blast
  then have r4: "verify_integrity tree_before ?t = Inr (None, say [BaselineDirInvalid (JStr ''gone'')] ?t)"
    by (auto simp: stale_snapshot_def)
  from h1 r1 h2 r2 r2' h3 r3 h4 r4 show ?thesis by (simp add: fresh_def)
qed

text \<open>
  C3, as stated, fails. A baseline file holding the JSON array \<^verbatim>\<open>[1]\<close> parses; the
  snapshot is then a non-empty list, which passes the first guard, and
  \<^verbatim>\<open>self.baseline_data.get("directory")\<close> raises AttributeError, which nothing
  catches.
\<close>

theorem no_uncaught_exception_counterexample:
  "main_verify tree_before (fresh (Content (JArr [JInt 1]))) = Inl AttributeError"
  by (simp add: run_defs)

text \<open>
  C3, amended. No exception leaves \<open>create\<close> for any target path, existing or not,
  whatever baseline file the constructor could load; and none leaves \<open>verify\<close> when
  the baseline file is missing, cannot be opened or is not JSON, or holds JSON that
  is falsy, or an object whose directory is absent or not an existing directory, or
  a value with the shape of a saved baseline.
\<close>

theorem no_uncaught_exception:
  "(store s \<noteq> Undecodable \<longrightarrow> \<not> isl (main_create env path s))
   \<and> (store s = Absent \<or> store s = Unopenable \<or> store s = Malformed \<longrightarrow>
        \<not> isl (main_verify env s))
   \<and> (store s = Content j \<and> (\<not> truthy j \<or> root_invalid env j \<or> snapshot_shaped j) \<longrightarrow>
        \<not> isl (main_verify env s))"
proof (intro conjI impI)
  assume "store s \<noteq> Undecodable"
  then show "\<not> isl (main_create env path s)"
    by (cases "store s") (simp_all add: main_create_def init_def load_baseline_def)
next
  assume a: "store s = Absent \<or> store s = Unopenable \<or> store s = Malformed"
  from init_fallback [OF a] obtain ms where
    i: "init s = Inr (say ms (s\<lparr>baseline_data := JObj []\<rparr>))" by blast
  show "\<not> isl (main_verify env s)"
    unfolding main_verify_def i by (simp add: verify_integrity_falsy say_def)
next
  assume a: "store s = Content j \<and> (\<not> truthy j \<or> root_invalid env j \<or> snapshot_shaped j)"
  then have i: "init s = Inr (s\<lparr>baseline_data := j\<rparr>)" by (simp add: init_content)
  let ?s = "s\<lparr>baseline_data := j\<rparr>"
  have d: "baseline_data ?s = j" by simp
  have "\<not> isl (verify_integrity env ?s)"
  proof (cases "truthy j")
    case False
    then show ?thesis by (simp add: verify_integrity_falsy)
  next
    case True
    with a have "root_invalid env j \<or> snapshot_shaped j" by blast
    then show ?thesis
    proof
      assume "root_invalid env j"
      with True verify_integrity_root_invalid [of ?s env] show ?thesis by auto
    next
      assume "snapshot_shaped j"
      then show ?thesis using verify_integrity_shaped [of ?s env] by simp
    qed
  qed
  then show "\<not> isl (main_verify env s)"
    unfolding main_verify_def i by simp
qed

theorem no_uncaught_exception_witness:
  "store (fresh Absent) \<noteq> Undecodable
   \<and> \<not> isl (main_create tree_before ''nowhere'' (fresh Absent))
   \<and> store (fresh Malformed) = Malformed
   \<and> \<not> isl (main_verify tree_before (fresh Malformed))
   \<and> store (fresh (Content stale_snapshot)) = Content stale_snapshot
   \<and> root_invalid tree_before stale_snapshot
   \<and> \<not> isl (main_verify tree_before (fresh (Content stale_snapshot)))"
proof -
  have h1: "store (fresh Absent) \<noteq> Undecodable" by (simp add: fresh_def)
  have h2: "store (fresh Malformed) = Absent \<or> store (fresh Malformed) = Unopenable
      \<or> store (fresh Malformed) = Malformed" by (simp add: fresh_def)
  have h3: "store (fresh (Content stale_snapshot)) = Content stale_snapshot
      \<and> (\<not> truthy stale_snapshot \<or> root_invalid tree_before stale_snapshot \<or> snapshot_shaped stale_snapshot)"
    by (simp add: fresh_def stale_snapshot_def root_invalid_def run_defs)
  have h3': "root_invalid tree_before stale_snapshot"
    by (simp add: stale_snapshot_def root_invalid_def run_defs)
  from no_uncaught_exception [of "fresh Absent" tree_before "''nowhere''"] h1
  have r1: "\<not> isl (main_create tree_before ''nowhere'' (fresh Absent))" by blast
  from no_uncaught_exception [of "fresh Malformed" tree_before] h2
  have r2: "\<not> isl (main_verify tree_before (fresh Malformed))" by blast
  from no_uncaught_exception [of "fresh (Content stale_snapshot)" tree_before _ stale_snapshot] h3
  have r3: "\<not> isl (main_verify tree_before (fresh (Content stale_snapshot)))" by blast
  from h1 r1 h2 r2 h3 h3' r3 show ?thesis by (simp add: fresh_def)
qed

end
